theory Spec2Isabelle
  imports Main "HOL-Library.Word"
begin

unbundle bit_operations_syntax

section \<open>Machine types\<close>

text \<open>
  openMSX's \<^verbatim>\<open>byte\<close> is an unsigned 8-bit value, its \<^verbatim>\<open>word\<close> an unsigned 16-bit value,
  and \<^verbatim>\<open>unsigned\<close> is 32 bits wide. Arithmetic on them wraps around, as it does on
  \<^typ>\<open>'a word\<close>. An \<^verbatim>\<open>int\<close> argument that the code hands on to an \<^verbatim>\<open>unsigned\<close>
  parameter keeps its 32 bits, so such arguments are modelled as \<^verbatim>\<open>unsigned\<close> at once.
\<close>

type_synonym byte = "8 word"
type_synonym word16 = "16 word"
type_synonym unsigned = "32 word"

text \<open>
  \<^verbatim>\<open>EmuTime\<close> is declared outside these sources. The code here only hands a time on
  or ignores it; it is taken as a 64-bit count of ticks.
\<close>

type_synonym EmuTime = "64 word"

section \<open>MSXMultiMemDevice: the bus dispatcher\<close>

subsection \<open>Data\<close>

text \<open>
  \<^verbatim>\<open>MSXMultiMemDevice::Range\<close> holds \<^verbatim>\<open>base\<close>, \<^verbatim>\<open>size\<close> and a pointer to the device. The
  pointer is an identity of type \<open>'d\<close>; \<^verbatim>\<open>size\<close> is written \<open>size_r\<close>, since \<open>size\<close> is
  a constant of HOL.
\<close>

record 'd Range =
  base :: unsigned
  size_r :: unsigned
  device :: 'd

text \<open>\<^verbatim>\<open>Range::operator==\<close> compares the three fields.\<close>

definition Range_eq :: "'d Range \<Rightarrow> 'd Range \<Rightarrow> bool" where
  "Range_eq r other =
     (base r = base other \<and> size_r r = size_r other \<and> device r = device other)"

record 'd MSXMultiMemDevice =
  ranges :: "'d Range list"

text \<open>
  The two assertions of the class are its failures: \<^verbatim>\<open>assert(canAdd(base, size))\<close> in
  \<^verbatim>\<open>add\<close> is the overlap violation, \<^verbatim>\<open>assert(it != ranges.end())\<close> in \<^verbatim>\<open>remove\<close> is
  the missing entry. Assertions are taken as checked: an operation stops at a failed
  one. An operation returns the failure (if any) together with the table as it
  stands when the operation stops.
\<close>

datatype failure = OverlapViolation | NotFound

subsection \<open>Operations\<close>

text \<open>The constructor pushes the sentinel onto the empty vector.\<close>

definition sentinel :: "'d \<Rightarrow> 'd Range" where
  "sentinel dummy = \<lparr>base = 0x0000, size_r = 0x10000, device = dummy\<rparr>"

definition MSXMultiMemDevice_new :: "'d \<Rightarrow> 'd MSXMultiMemDevice" where
  "MSXMultiMemDevice_new dummy = \<lparr>ranges = [] @ [sentinel dummy]\<rparr>"

definition isInside :: "unsigned \<Rightarrow> unsigned \<Rightarrow> unsigned \<Rightarrow> bool" where
  "isInside x start sz = (x - start < sz)"

definition overlap :: "unsigned \<Rightarrow> unsigned \<Rightarrow> unsigned \<Rightarrow> unsigned \<Rightarrow> bool" where
  "overlap start1 size1 start2 size2 =
     (isInside start1 start2 size2 \<or> isInside (start1 + size1 - 1) start2 size2)"

text \<open>
  The loop of \<^verbatim>\<open>canAdd\<close> visits the entries at the indices below \<^verbatim>\<open>ranges.size() - 1\<close>,
  in order, and stops at the first one that overlaps. (On an empty vector the bound
  wraps around in the source and the loop reads outside the vector; the model visits
  nothing there. The constructor never leaves the vector empty, and no property
  below is about an empty one.)
\<close>

primrec canAdd_loop :: "unsigned \<Rightarrow> unsigned \<Rightarrow> 'd Range list \<Rightarrow> bool" where
  "canAdd_loop b s [] = True"
| "canAdd_loop b s (r # rs) =
     (if overlap b s (base r) (size_r r) then False else canAdd_loop b s rs)"

definition canAdd :: "unsigned \<Rightarrow> unsigned \<Rightarrow> 'd MSXMultiMemDevice \<Rightarrow> bool" where
  "canAdd b s m = canAdd_loop b s (take (length (ranges m) - 1) (ranges m))"

definition add ::
  "'d \<Rightarrow> unsigned \<Rightarrow> unsigned \<Rightarrow> 'd MSXMultiMemDevice
     \<Rightarrow> failure option \<times> 'd MSXMultiMemDevice" where
  "add dev b s m =
     (if canAdd b s m
      then (None, m\<lparr>ranges := \<lparr>base = b, size_r = s, device = dev\<rparr> # ranges m\<rparr>)
      else (Some OverlapViolation, m))"

text \<open>
  \<^verbatim>\<open>std::find\<close> gives the position of the first entry equal to the value, or the end;
  \<^verbatim>\<open>erase\<close> drops the entry at that position. \<^verbatim>\<open>remove\<close> is written \<open>remove_range\<close>,
  since \<open>remove\<close> is a constant of HOL.
\<close>

primrec find_pos :: "'d Range \<Rightarrow> 'd Range list \<Rightarrow> nat option" where
  "find_pos v [] = None"
| "find_pos v (r # rs) =
     (if Range_eq r v then Some 0 else map_option Suc (find_pos v rs))"

definition erase :: "nat \<Rightarrow> 'a list \<Rightarrow> 'a list" where
  "erase i xs = take i xs @ drop (Suc i) xs"

definition remove_range ::
  "'d \<Rightarrow> unsigned \<Rightarrow> unsigned \<Rightarrow> 'd MSXMultiMemDevice
     \<Rightarrow> failure option \<times> 'd MSXMultiMemDevice" where
  "remove_range dev b s m =
     (case find_pos \<lparr>base = b, size_r = s, device = dev\<rparr> (ranges m) of
        None \<Rightarrow> (Some NotFound, m)
      | Some i \<Rightarrow> (None, m\<lparr>ranges := erase i (ranges m)\<rparr>))"

text \<open>
  \<^verbatim>\<open>searchRange\<close> returns the first entry the address is inside of. Falling out of
  the loop reaches \<^verbatim>\<open>UNREACHABLE\<close>: that is the value \<open>None\<close>.
\<close>

primrec searchRange_loop :: "unsigned \<Rightarrow> 'd Range list \<Rightarrow> 'd Range option" where
  "searchRange_loop address [] = None"
| "searchRange_loop address (r # rs) =
     (if isInside address (base r) (size_r r) then Some r
      else searchRange_loop address rs)"

definition searchRange :: "'d MSXMultiMemDevice \<Rightarrow> unsigned \<Rightarrow> 'd Range option" where
  "searchRange m address = searchRange_loop address (ranges m)"

definition searchDevice :: "'d MSXMultiMemDevice \<Rightarrow> unsigned \<Rightarrow> 'd option" where
  "searchDevice m address = map_option device (searchRange m address)"

subsection \<open>Routing of accesses\<close>

text \<open>
  \<^verbatim>\<open>MSXDevice\<close> is an abstract class declared outside these sources: its three
  virtual accessors are taken as parameters. A call may change anything the device
  can reach, so an accessor works on the whole state \<open>'w\<close> of the devices.
  \<^verbatim>\<open>peekMem\<close> is \<^verbatim>\<open>const\<close>. The table \<open>vt\<close> gives the accessors of the device behind
  a pointer.
\<close>

record 'w MSXDevice =
  MSXDevice_readMem :: "word16 \<Rightarrow> EmuTime \<Rightarrow> 'w \<Rightarrow> byte \<times> 'w"
  MSXDevice_peekMem :: "word16 \<Rightarrow> EmuTime \<Rightarrow> 'w \<Rightarrow> byte"
  MSXDevice_writeMem :: "word16 \<Rightarrow> byte \<Rightarrow> EmuTime \<Rightarrow> 'w \<Rightarrow> 'w"

text \<open>
  The 16-bit address widens to \<^verbatim>\<open>unsigned\<close> for \<^verbatim>\<open>searchDevice\<close> and goes to the device
  as it came. \<open>None\<close> is \<^verbatim>\<open>UNREACHABLE\<close> in \<^verbatim>\<open>searchRange\<close>.
\<close>

definition readMem ::
  "('d \<Rightarrow> 'w MSXDevice) \<Rightarrow> 'd MSXMultiMemDevice \<Rightarrow> word16 \<Rightarrow> EmuTime \<Rightarrow> 'w
     \<Rightarrow> (byte \<times> 'w) option" where
  "readMem vt m address time w =
     (case searchDevice m (ucast address) of
        None \<Rightarrow> None
      | Some d \<Rightarrow> Some (MSXDevice_readMem (vt d) address time w))"

definition peekMem ::
  "('d \<Rightarrow> 'w MSXDevice) \<Rightarrow> 'd MSXMultiMemDevice \<Rightarrow> word16 \<Rightarrow> EmuTime \<Rightarrow> 'w
     \<Rightarrow> byte option" where
  "peekMem vt m address time w =
     (case searchDevice m (ucast address) of
        None \<Rightarrow> None
      | Some d \<Rightarrow> Some (MSXDevice_peekMem (vt d) address time w))"

definition writeMem ::
  "('d \<Rightarrow> 'w MSXDevice) \<Rightarrow> 'd MSXMultiMemDevice \<Rightarrow> word16 \<Rightarrow> byte \<Rightarrow> EmuTime \<Rightarrow> 'w
     \<Rightarrow> 'w option" where
  "writeMem vt m address val time w =
     (case searchDevice m (ucast address) of
        None \<Rightarrow> None
      | Some d \<Rightarrow> Some (MSXDevice_writeMem (vt d) address val time w))"

section \<open>What the flash and the PAC use from outside\<close>

text \<open>
  \<^verbatim>\<open>SRAM\<close> and \<^verbatim>\<open>Rom\<close> are classes declared outside these sources. The operations the
  code calls on an \<^verbatim>\<open>SRAM\<close> (\<^verbatim>\<open>operator[]\<close>, \<^verbatim>\<open>write\<close>, \<^verbatim>\<open>memset\<close>, \<^verbatim>\<open>getSize\<close>) and the
  bytes of the \<^verbatim>\<open>Rom\<close> are parameters, and so is the constant \<^verbatim>\<open>MAX_CMD_SIZE\<close> of
  \<^verbatim>\<open>AmdFlash.hh\<close>, the number of entries of the array \<^verbatim>\<open>cmd\<close>. \<open>'r\<close> is the state of an
  \<^verbatim>\<open>SRAM\<close> object.
\<close>

record 'r extern =
  SRAM_get :: "'r \<Rightarrow> nat \<Rightarrow> byte"
  SRAM_write :: "nat \<Rightarrow> byte \<Rightarrow> 'r \<Rightarrow> 'r"
  SRAM_memset :: "nat \<Rightarrow> byte \<Rightarrow> nat \<Rightarrow> 'r \<Rightarrow> 'r"
  SRAM_getSize :: "'r \<Rightarrow> nat"
  Rom_get :: "nat \<Rightarrow> byte"
  MAX_CMD_SIZE :: nat

text \<open>
  \<^verbatim>\<open>invalidateMemCache(start, size)\<close> acts on the CPU, outside the device. Each device
  state carries the list of the calls made so far, oldest first.
\<close>

type_synonym invalidation = "unsigned \<times> unsigned"

section \<open>AmdFlash\<close>

subsection \<open>Data\<close>

text \<open>
  The members of \<^verbatim>\<open>AmdFlash\<close> the operations below use. \<^verbatim>\<open>size\<close> is written \<open>size_s\<close> in
  a sector and \<open>size_f\<close> in the flash, the \<^verbatim>\<open>value\<close> of a command \<open>value_c\<close>, and the
  methods \<^verbatim>\<open>reset\<close>, \<^verbatim>\<open>peek\<close>, \<^verbatim>\<open>read\<close> and \<^verbatim>\<open>write\<close> carry the name of the class, as
  Isabelle reserves some of these words. \<^verbatim>\<open>cmdIdx\<close> is a natural number: the assertion
  of \<^verbatim>\<open>write\<close> keeps it below \<^verbatim>\<open>MAX_CMD_SIZE\<close>. The array \<^verbatim>\<open>cmd\<close> is a list; the code
  reads its entries 0 to 5 unchecked, and the properties below are about arrays of at
  least six entries.
\<close>

datatype State = ST_IDLE | ST_IDENT

record SectorInfo =
  size_s :: unsigned
  writeProtected :: bool

record AmdCmd =
  addr :: unsigned
  value_c :: byte

text \<open>
  An entry of \<^verbatim>\<open>readAddress\<close> points into the buffer of the \<^verbatim>\<open>SRAM\<close> or into the \<^verbatim>\<open>Rom\<close>,
  or is \<^verbatim>\<open>nullptr\<close> (\<open>None\<close>).
\<close>

datatype byte_ptr = RamPtr nat | RomPtr nat

record 'r AmdFlash =
  sectorInfo :: "SectorInfo list"
  writeAddress :: "int list"
  readAddress :: "byte_ptr option list"
  size_f :: unsigned
  ID :: word16
  use12bitAddressing :: bool
  ram :: "'r option"
  cmd :: "AmdCmd list"
  cmdIdx :: nat
  state :: State
  vppWpPinLow :: bool
  flash_invalidations :: "invalidation list"

subsection \<open>Sectors\<close>

text \<open>
  The loop of \<^verbatim>\<open>getSectorInfo\<close> walks the sectors while the address is not below the
  sector's size. Running past the last sector is the failure \<open>None\<close> (the assertion
  \<^verbatim>\<open>it != end(sectorInfo)\<close>). The result is (sector, sectorSize, offset).
\<close>

primrec getSectorInfo_loop ::
  "unsigned \<Rightarrow> nat \<Rightarrow> SectorInfo list \<Rightarrow> (nat \<times> unsigned \<times> unsigned) option" where
  "getSectorInfo_loop address sector [] = None"
| "getSectorInfo_loop address sector (i # it) =
     (if address \<ge> size_s i
      then getSectorInfo_loop (address - size_s i) (sector + 1) it
      else Some (sector, size_s i, address))"

definition getSectorInfo ::
  "'r AmdFlash \<Rightarrow> unsigned \<Rightarrow> (nat \<times> unsigned \<times> unsigned) option" where
  "getSectorInfo s address =
     getSectorInfo_loop (address AND (size_f s - 1)) 0 (sectorInfo s)"

definition isSectorWritable :: "'r AmdFlash \<Rightarrow> nat \<Rightarrow> bool" where
  "isSectorWritable s sector =
     (if vppWpPinLow s \<and> (sector = 0 \<or> sector = 1) then False
      else writeAddress s ! sector \<noteq> - 1)"

subsection \<open>Mode\<close>

definition setState :: "State \<Rightarrow> 'r AmdFlash \<Rightarrow> 'r AmdFlash" where
  "setState newState s =
     (if state s = newState then s
      else s\<lparr>state := newState,
             flash_invalidations := flash_invalidations s @ [(0x0000, 0x10000)]\<rparr>)"

definition AmdFlash_reset :: "'r AmdFlash \<Rightarrow> 'r AmdFlash" where
  "AmdFlash_reset s = setState ST_IDLE (s\<lparr>cmdIdx := 0\<rparr>)"

subsection \<open>Reading\<close>

definition deref :: "'r extern \<Rightarrow> 'r AmdFlash \<Rightarrow> byte_ptr \<Rightarrow> unsigned \<Rightarrow> byte option" where
  "deref E s p offset =
     (case p of
        RamPtr a \<Rightarrow> (case ram s of None \<Rightarrow> None
                     | Some r \<Rightarrow> Some (SRAM_get E r (a + unat offset)))
      | RomPtr a \<Rightarrow> Some (Rom_get E (a + unat offset)))"

definition AmdFlash_peek :: "'r extern \<Rightarrow> 'r AmdFlash \<Rightarrow> unsigned \<Rightarrow> byte option" where
  "AmdFlash_peek E s address =
     (case getSectorInfo s address of
        None \<Rightarrow> None
      | Some (sector, sectorSize, offset) \<Rightarrow>
          if state s = ST_IDLE then
            (case readAddress s ! sector of
               Some p \<Rightarrow> deref E s p offset
             | None \<Rightarrow> Some 0xFF)
          else
            (let address' = (if use12bitAddressing s then drop_bit 1 address else address)
             in if address' AND 3 = 0 then Some (ucast (drop_bit 8 (ID s)))
                else if address' AND 3 = 1 then Some (ucast (ID s AND 0xFF))
                else if address' AND 3 = 2
                  then Some (if isSectorWritable s sector then 0 else 1)
                else Some 1))"

text \<open>\<^verbatim>\<open>read\<close> returns the byte and the flash as it is after the call.\<close>

definition AmdFlash_read ::
  "'r extern \<Rightarrow> 'r AmdFlash \<Rightarrow> unsigned \<Rightarrow> (byte \<times> 'r AmdFlash) option" where
  "AmdFlash_read E s address =
     (case AmdFlash_peek E s address of None \<Rightarrow> None | Some b \<Rightarrow> Some (b, s))"

subsection \<open>Command matching\<close>

text \<open>
  \<^verbatim>\<open>partialMatch\<close> compares the first \<open>min len cmdIdx\<close> entries of \<^verbatim>\<open>cmd\<close> with the
  address pattern and the data sequence. \<open>None\<close> is its assertion \<^verbatim>\<open>len <= 5\<close>.
\<close>

definition addrSeq :: "nat list" where
  "addrSeq = [0, 1, 0, 0, 1]"

definition cmdAddr :: "unsigned list" where
  "cmdAddr = [0x555, 0x2aa]"

primrec partialMatch_loop :: "'r AmdFlash \<Rightarrow> byte list \<Rightarrow> nat list \<Rightarrow> bool" where
  "partialMatch_loop s dataSeq [] = True"
| "partialMatch_loop s dataSeq (i # js) =
     (let a = (if use12bitAddressing s then drop_bit 1 (addr (cmd s ! i))
               else addr (cmd s ! i))
      in if a AND 0x7FF \<noteq> cmdAddr ! (addrSeq ! i) \<or> value_c (cmd s ! i) \<noteq> dataSeq ! i
         then False
         else partialMatch_loop s dataSeq js)"

definition partialMatch :: "'r AmdFlash \<Rightarrow> nat \<Rightarrow> byte list \<Rightarrow> bool option" where
  "partialMatch s len dataSeq =
     (if \<not> len \<le> 5 then None
      else Some (partialMatch_loop s dataSeq [0 ..< min len (cmdIdx s)]))"

text \<open>
  A \<^verbatim>\<open>checkCommandXXX\<close> returns its boolean and the flash as it leaves it; \<open>None\<close> is
  a failed assertion or a call through the null \<^verbatim>\<open>ram\<close> pointer.
\<close>

definition checkCommandReset :: "'r AmdFlash \<Rightarrow> (bool \<times> 'r AmdFlash) option" where
  "checkCommandReset s =
     Some (False, if value_c (cmd s ! 0) = 0xf0 then AmdFlash_reset s else s)"

definition checkCommandEraseSector ::
  "'r extern \<Rightarrow> 'r AmdFlash \<Rightarrow> (bool \<times> 'r AmdFlash) option" where
  "checkCommandEraseSector E s =
     (case partialMatch s 5 [0xaa, 0x55, 0x80, 0xaa, 0x55] of
        None \<Rightarrow> None
      | Some False \<Rightarrow> Some (False, s)
      | Some True \<Rightarrow>
          if cmdIdx s < 6 then Some (True, s)
          else if value_c (cmd s ! 5) = 0x30 then
            (case getSectorInfo s (addr (cmd s ! 5)) of
               None \<Rightarrow> None
             | Some (sector, sectorSize, offset) \<Rightarrow>
                 if isSectorWritable s sector then
                   (case ram s of
                      None \<Rightarrow> None
                    | Some r \<Rightarrow>
                        Some (False,
                          s\<lparr>ram := Some (SRAM_memset E
                                 (unat (word_of_int (writeAddress s ! sector) :: unsigned))
                                 0xff (unat sectorSize) r)\<rparr>))
                 else Some (False, s))
          else Some (False, s))"

definition checkCommandEraseChip ::
  "'r extern \<Rightarrow> 'r AmdFlash \<Rightarrow> (bool \<times> 'r AmdFlash) option" where
  "checkCommandEraseChip E s =
     (case partialMatch s 5 [0xaa, 0x55, 0x80, 0xaa, 0x55] of
        None \<Rightarrow> None
      | Some False \<Rightarrow> Some (False, s)
      | Some True \<Rightarrow>
          if cmdIdx s < 6 then Some (True, s)
          else if value_c (cmd s ! 5) = 0x10 then
            (case ram s of
               None \<Rightarrow> Some (False, s)
             | Some r \<Rightarrow>
                 Some (False, s\<lparr>ram := Some (SRAM_memset E 0 0xff (SRAM_getSize E r) r)\<rparr>))
          else Some (False, s))"

text \<open>
  The loop of \<^verbatim>\<open>checkCommandProgramHelper\<close> over the indices
  \<open>cmdLen, \<dots>, cmdLen + numBytes - 1\<close> of \<^verbatim>\<open>cmd\<close>.
\<close>

primrec program_loop :: "'r extern \<Rightarrow> nat list \<Rightarrow> 'r AmdFlash \<Rightarrow> 'r AmdFlash option" where
  "program_loop E [] s = Some s"
| "program_loop E (i # js) s =
     (case getSectorInfo s (addr (cmd s ! i)) of
        None \<Rightarrow> None
      | Some (sector, sectorSize, offset) \<Rightarrow>
          if isSectorWritable s sector then
            (case ram s of
               None \<Rightarrow> None
             | Some r \<Rightarrow>
                 (let ramAddr = unat (word_of_int (writeAddress s ! sector) + offset :: unsigned)
                  in program_loop E js
                       (s\<lparr>ram := Some (SRAM_write E ramAddr
                              (SRAM_get E r ramAddr AND value_c (cmd s ! i)) r)\<rparr>)))
          else program_loop E js s)"

definition checkCommandProgramHelper ::
  "'r extern \<Rightarrow> nat \<Rightarrow> byte list \<Rightarrow> 'r AmdFlash \<Rightarrow> (bool \<times> 'r AmdFlash) option" where
  "checkCommandProgramHelper E numBytes cmdSeq s =
     (let cmdLen = length cmdSeq in
      case partialMatch s cmdLen cmdSeq of
        None \<Rightarrow> None
      | Some False \<Rightarrow> Some (False, s)
      | Some True \<Rightarrow>
          if cmdIdx s < cmdLen + numBytes then Some (True, s)
          else (case program_loop E [cmdLen ..< cmdLen + numBytes] s of
                  None \<Rightarrow> None
                | Some s' \<Rightarrow> Some (False, s')))"

definition checkCommandProgram ::
  "'r extern \<Rightarrow> 'r AmdFlash \<Rightarrow> (bool \<times> 'r AmdFlash) option" where
  "checkCommandProgram E s = checkCommandProgramHelper E 1 [0xaa, 0x55, 0xa0] s"

definition checkCommandDoubleByteProgram ::
  "'r extern \<Rightarrow> 'r AmdFlash \<Rightarrow> (bool \<times> 'r AmdFlash) option" where
  "checkCommandDoubleByteProgram E s = checkCommandProgramHelper E 2 [0x50] s"

definition checkCommandQuadrupleByteProgram ::
  "'r extern \<Rightarrow> 'r AmdFlash \<Rightarrow> (bool \<times> 'r AmdFlash) option" where
  "checkCommandQuadrupleByteProgram E s = checkCommandProgramHelper E 4 [0x56] s"

definition checkCommandManufacturer :: "'r AmdFlash \<Rightarrow> (bool \<times> 'r AmdFlash) option" where
  "checkCommandManufacturer s =
     (case partialMatch s 3 [0xaa, 0x55, 0x90] of
        None \<Rightarrow> None
      | Some False \<Rightarrow> Some (False, s)
      | Some True \<Rightarrow>
          (let s' = (if cmdIdx s = 3 then setState ST_IDENT s else s)
           in if cmdIdx s' < 4 then Some (True, s') else Some (False, s')))"

subsection \<open>Writing\<close>

text \<open>
  \<open>orelse\<close> is C++'s \<^verbatim>\<open>||\<close> on two calls that may change the flash: the second call
  is made only when the first returned false, on the flash the first one left.
\<close>

definition orelse ::
  "('s \<Rightarrow> (bool \<times> 's) option) \<Rightarrow> ('s \<Rightarrow> (bool \<times> 's) option) \<Rightarrow> 's \<Rightarrow> (bool \<times> 's) option" where
  "orelse f g s =
     (case f s of
        None \<Rightarrow> None
      | Some (True, s') \<Rightarrow> Some (True, s')
      | Some (False, s') \<Rightarrow> g s')"

text \<open>
  \<^verbatim>\<open>write\<close> first asserts \<^verbatim>\<open>cmdIdx < MAX_CMD_SIZE\<close> (\<open>None\<close> when it fails), stores the
  address and the value at \<^verbatim>\<open>cmd[cmdIdx]\<close>, increments \<^verbatim>\<open>cmdIdx\<close> and runs the checks.
\<close>

definition AmdFlash_write ::
  "'r extern \<Rightarrow> 'r AmdFlash \<Rightarrow> unsigned \<Rightarrow> byte \<Rightarrow> 'r AmdFlash option" where
  "AmdFlash_write E s address val =
     (if \<not> cmdIdx s < MAX_CMD_SIZE E then None
      else
        (let s1 = s\<lparr>cmd := (cmd s)[cmdIdx s := \<lparr>addr = address, value_c = val\<rparr>]\<rparr>;
             s2 = s1\<lparr>cmdIdx := cmdIdx s1 + 1\<rparr>
         in case orelse checkCommandManufacturer
                 (orelse (checkCommandEraseSector E)
                 (orelse (checkCommandProgram E)
                 (orelse (checkCommandDoubleByteProgram E)
                 (orelse (checkCommandQuadrupleByteProgram E)
                 (orelse (checkCommandEraseChip E)
                         checkCommandReset))))) s2 of
              None \<Rightarrow> None
            | Some (True, s3) \<Rightarrow> Some s3
            | Some (False, s3) \<Rightarrow> Some (AmdFlash_reset s3)))"

text \<open>A sequence of \<^verbatim>\<open>write\<close> calls, each (address, value), first call first.\<close>

primrec writes ::
  "'r extern \<Rightarrow> (unsigned \<times> byte) list \<Rightarrow> 'r AmdFlash \<Rightarrow> 'r AmdFlash option" where
  "writes E [] s = Some s"
| "writes E (x # xs) s =
     (case AmdFlash_write E s (fst x) (snd x) of
        None \<Rightarrow> None
      | Some s' \<Rightarrow> writes E xs s')"

section \<open>MSXPac\<close>

record 'r MSXPac =
  sram :: 'r
  r1ffe :: byte
  r1fff :: byte
  sramEnabled :: bool
  pac_invalidations :: "invalidation list"

definition MSXPac_reset :: "EmuTime \<Rightarrow> 'r MSXPac \<Rightarrow> 'r MSXPac" where
  "MSXPac_reset time p = p\<lparr>sramEnabled := False, r1fff := 0xFF, r1ffe := 0xFF\<rparr>"

text \<open>
  The constructor builds the \<^verbatim>\<open>SRAM\<close> (its content \<open>sram0\<close> comes from a file) and
  calls \<^verbatim>\<open>reset\<close>; \<open>raw\<close> is the object before that, its other members not yet set.
\<close>

definition MSXPac_new :: "'r \<Rightarrow> 'r MSXPac \<Rightarrow> EmuTime \<Rightarrow> 'r MSXPac" where
  "MSXPac_new sram0 raw dummyTime = MSXPac_reset dummyTime (raw\<lparr>sram := sram0\<rparr>)"

definition MSXPac_readMem :: "'r extern \<Rightarrow> 'r MSXPac \<Rightarrow> word16 \<Rightarrow> EmuTime \<Rightarrow> byte" where
  "MSXPac_readMem E p address time =
     (let address' = address AND 0x3FFF in
      if sramEnabled p then
        (if address' < 0x1FFE then SRAM_get E (sram p) (unat address')
         else if address' = 0x1FFE then r1ffe p
         else if address' = 0x1FFF then r1fff p
         else 0xFF)
      else 0xFF)"

definition checkSramEnable :: "'r MSXPac \<Rightarrow> 'r MSXPac" where
  "checkSramEnable p =
     (let newEnabled = (r1ffe p = 0x4D \<and> r1fff p = 0x69) in
      if sramEnabled p \<noteq> newEnabled
      then p\<lparr>sramEnabled := newEnabled,
             pac_invalidations := pac_invalidations p @ [(0x0000, 0x10000)]\<rparr>
      else p)"

definition MSXPac_writeMem ::
  "'r extern \<Rightarrow> 'r MSXPac \<Rightarrow> word16 \<Rightarrow> byte \<Rightarrow> EmuTime \<Rightarrow> 'r MSXPac" where
  "MSXPac_writeMem E p address val time =
     (let address' = address AND 0x3FFF in
      if address' = 0x1FFE then checkSramEnable (p\<lparr>r1ffe := val\<rparr>)
      else if address' = 0x1FFF then checkSramEnable (p\<lparr>r1fff := val\<rparr>)
      else if sramEnabled p \<and> address' < 0x1FFE
        then p\<lparr>sram := SRAM_write E (unat address') val (sram p)\<rparr>
      else p)"

section \<open>States and notions the properties speak of\<close>

text \<open>
  Two ranges of addresses intersect when some address lies in both: the larger of
  the two bases is below the smaller of the two ends. This is the notion of the
  specification, on the numbers themselves, without wrap-around.
\<close>

definition ranges_intersect :: "unsigned \<Rightarrow> unsigned \<Rightarrow> unsigned \<Rightarrow> unsigned \<Rightarrow> bool" where
  "ranges_intersect b1 s1 b2 s2 =
     (max (unat b1) (unat b2) < min (unat b1 + unat s1) (unat b2 + unat s2))"

text \<open>
  A range contains an address when the address is at or above its base and below
  its base plus its size, again on the numbers themselves. A range fits when its end
  does not pass the largest \<^verbatim>\<open>unsigned\<close> value, so that it does not wrap around to
  address 0.
\<close>

definition range_fits :: "'d Range \<Rightarrow> bool" where
  "range_fits r = (unat (base r) + unat (size_r r) \<le> 2 ^ 32)"

definition range_contains :: "'d Range \<Rightarrow> unsigned \<Rightarrow> bool" where
  "range_contains r a =
     (unat (base r) \<le> unat a \<and> unat a < unat (base r) + unat (size_r r))"

text \<open>
  The dispatchers a machine can hold: the constructor makes one, an accepted \<^verbatim>\<open>add\<close>
  and a \<^verbatim>\<open>remove\<close> of an entry registered before the sentinel lead from one to the
  next.
\<close>

inductive reachable :: "'d \<Rightarrow> 'd MSXMultiMemDevice \<Rightarrow> bool" for dummy :: 'd where
  reachable_new: "reachable dummy (MSXMultiMemDevice_new dummy)"
| reachable_add:
    "reachable dummy m \<Longrightarrow> add dev b s m = (None, m') \<Longrightarrow> reachable dummy m'"
| reachable_remove:
    "reachable dummy m \<Longrightarrow>
     find_pos \<lparr>base = b, size_r = s, device = dev\<rparr> (ranges m) = Some i \<Longrightarrow>
     i < length (ranges m) - 1 \<Longrightarrow>
     remove_range dev b s m = (None, m') \<Longrightarrow> reachable dummy m'"

definition sentinel_last :: "'d \<Rightarrow> 'd MSXMultiMemDevice \<Rightarrow> bool" where
  "sentinel_last dummy m = (ranges m \<noteq> [] \<and> last (ranges m) = sentinel dummy)"

text \<open>
  What the constructor and \<^verbatim>\<open>init\<close> leave behind, as far as the operations below rely
  on it: \<^verbatim>\<open>size\<close> is the sum of the sector sizes and not zero; \<^verbatim>\<open>writeAddress\<close> and
  \<^verbatim>\<open>readAddress\<close> have one entry per sector; the \<^verbatim>\<open>SRAM\<close> exists when a sector of
  positive size is writable, and when an entry of \<^verbatim>\<open>readAddress\<close> points into it;
  \<^verbatim>\<open>cmd\<close> has \<^verbatim>\<open>MAX_CMD_SIZE\<close> entries.
\<close>

definition flash_wf :: "'r extern \<Rightarrow> 'r AmdFlash \<Rightarrow> bool" where
  "flash_wf E s =
     (sum_list (map size_s (sectorInfo s)) = size_f s
      \<and> size_f s \<noteq> 0
      \<and> length (writeAddress s) = length (sectorInfo s)
      \<and> length (readAddress s) = length (sectorInfo s)
      \<and> ((\<exists>i < length (sectorInfo s).
             writeAddress s ! i \<noteq> - 1 \<and> size_s (sectorInfo s ! i) \<noteq> 0) \<longrightarrow> ram s \<noteq> None)
      \<and> ((\<exists>a. Some (RamPtr a) \<in> set (readAddress s)) \<longrightarrow> ram s \<noteq> None)
      \<and> length (cmd s) = MAX_CMD_SIZE E)"

text \<open>
  Two ways a \<^verbatim>\<open>checkCommandXXX\<close> can come back from a well-formed flash. It \<open>keeps\<close>
  the command index when it returns a well-formed flash with the same \<^verbatim>\<open>cmdIdx\<close>,
  which is at most 5 if it answers true. It \<open>settles\<close> when this much holds in the
  case that it answers true.
\<close>

definition keeps :: "'r extern \<Rightarrow> 'r AmdFlash \<Rightarrow> (bool \<times> 'r AmdFlash) option \<Rightarrow> bool" where
  "keeps E s res =
     (\<exists>b s'. res = Some (b, s') \<and> flash_wf E s' \<and> cmdIdx s' = cmdIdx s
        \<and> (b \<longrightarrow> cmdIdx s \<le> 5))"

definition settles :: "'r extern \<Rightarrow> 'r AmdFlash \<Rightarrow> (bool \<times> 'r AmdFlash) option \<Rightarrow> bool" where
  "settles E s res =
     (\<exists>b s'. res = Some (b, s') \<and> flash_wf E s'
        \<and> (b \<longrightarrow> cmdIdx s' = cmdIdx s \<and> cmdIdx s \<le> 5))"

text \<open>
  The states of a PAC: the constructor makes one, \<^verbatim>\<open>reset\<close> and \<^verbatim>\<open>writeMem\<close> lead from
  one to the next.
\<close>

inductive pac_reachable :: "'r extern \<Rightarrow> 'r MSXPac \<Rightarrow> bool" for E :: "'r extern" where
  pac_new: "pac_reachable E (MSXPac_new sram0 raw t)"
| pac_reset: "pac_reachable E p \<Longrightarrow> pac_reachable E (MSXPac_reset t p)"
| pac_writeMem: "pac_reachable E p \<Longrightarrow> pac_reachable E (MSXPac_writeMem E p a v t)"

subsection \<open>A small machine to run the model on\<close>

text \<open>
  An \<^verbatim>\<open>SRAM\<close> that is a list of bytes, a \<^verbatim>\<open>Rom\<close> of 0xC9 bytes and a command buffer of
  eight entries; a flash of two sectors of four bytes, the first write-protected and
  read from the \<^verbatim>\<open>Rom\<close>, the second writable; a PAC whose members hold the two magic
  bytes while the flag is still off.
\<close>

definition example_extern :: "byte list extern" where
  "example_extern =
     \<lparr>SRAM_get = (\<lambda>r i. r ! i),
      SRAM_write = (\<lambda>a v r. r[a := v]),
      SRAM_memset = (\<lambda>a c n r. take a r @ replicate n c @ drop (a + n) r),
      SRAM_getSize = length,
      Rom_get = (\<lambda>i. 0xC9),
      MAX_CMD_SIZE = 8\<rparr>"

definition example_flash :: "byte list AmdFlash" where
  "example_flash =
     \<lparr>sectorInfo = [\<lparr>size_s = 4, writeProtected = True\<rparr>,
                    \<lparr>size_s = 4, writeProtected = False\<rparr>],
      writeAddress = [- 1, 0],
      readAddress = [Some (RomPtr 0), Some (RamPtr 0)],
      size_f = 8,
      ID = 0x01A4,
      use12bitAddressing = False,
      ram = Some [0x12, 0x34, 0x56, 0x78],
      cmd = replicate 8 \<lparr>addr = 0, value_c = 0\<rparr>,
      cmdIdx = 0,
      state = ST_IDLE,
      vppWpPinLow = False,
      flash_invalidations = []\<rparr>"

definition example_pac :: "byte list MSXPac" where
  "example_pac =
     \<lparr>sram = [0x11, 0x22], r1ffe = 0x4D, r1fff = 0x69, sramEnabled = False,
      pac_invalidations = []\<rparr>"

section \<open>Properties of the bus dispatcher\<close>

text \<open>
  C7. From a dispatcher holding only the sentinel, adding X over [0x4000, 0x6000)
  succeeds; then adding Y over [0x5000, 0x7000) is rejected with the overlap
  violation, and adding Y over [0x6000, 0x8000) instead succeeds.
\<close>

theorem overlap_rejection_scenario:
  "add X 0x4000 0x2000 (MSXMultiMemDevice_new dummy)
     = (None, \<lparr>ranges = [\<lparr>base = 0x4000, size_r = 0x2000, device = X\<rparr>, sentinel dummy]\<rparr>)
   \<and> fst (add Y 0x5000 0x2000 (snd (add X 0x4000 0x2000 (MSXMultiMemDevice_new dummy))))
     = Some OverlapViolation
   \<and> fst (add Y 0x6000 0x2000 (snd (add X 0x4000 0x2000 (MSXMultiMemDevice_new dummy))))
     = None"
  by (simp add: add_def canAdd_def MSXMultiMemDevice_new_def overlap_def isInside_def)

subsection \<open>The sentinel stays last\<close>

lemma sentinel_last_new: "sentinel_last dummy (MSXMultiMemDevice_new dummy)"
  by (simp add: sentinel_last_def MSXMultiMemDevice_new_def)

lemma sentinel_last_add:
  "sentinel_last dummy m \<Longrightarrow> add dev b s m = (None, m') \<Longrightarrow> sentinel_last dummy m'"
  by (auto simp: sentinel_last_def add_def split: if_splits)

lemma erase_last:
  "i < length xs - 1 \<Longrightarrow> erase i xs \<noteq> [] \<and> last (erase i xs) = last xs"
  by (cases xs rule: rev_cases) (auto simp: erase_def)

lemma sentinel_last_remove:
  "sentinel_last dummy m \<Longrightarrow>
   find_pos \<lparr>base = b, size_r = s, device = dev\<rparr> (ranges m) = Some i \<Longrightarrow>
   i < length (ranges m) - 1 \<Longrightarrow>
   remove_range dev b s m = (None, m') \<Longrightarrow> sentinel_last dummy m'"
  using erase_last [of i "ranges m"]
  by (auto simp: sentinel_last_def remove_range_def)

lemma reachable_sentinel_last: "reachable dummy m \<Longrightarrow> sentinel_last dummy m"
  by (induction rule: reachable.induct)
     (auto intro: sentinel_last_new sentinel_last_add sentinel_last_remove)

subsection \<open>Resolution\<close>

lemma isInside_sentinel:
  "isInside a (base (sentinel dummy)) (size_r (sentinel dummy)) = (a < 0x10000)"
  by (simp add: isInside_def sentinel_def)

lemma searchRange_loop_find:
  "searchRange_loop a rs = find (\<lambda>r. isInside a (base r) (size_r r)) rs"
  by (induction rs) auto

lemma searchRange_loop_snoc:
  "searchRange_loop a (rs @ [r]) =
     (case searchRange_loop a rs of
        Some x \<Rightarrow> Some x
      | None \<Rightarrow> if isInside a (base r) (size_r r) then Some r else None)"
  by (induction rs) auto

lemma searchRange_sentinel_last:
  assumes "sentinel_last dummy m" and "a < 0x10000"
  shows "searchRange m a =
     Some (case find (\<lambda>r. isInside a (base r) (size_r r)) (butlast (ranges m)) of
             Some r \<Rightarrow> r | None \<Rightarrow> sentinel dummy)"
proof -
  from assms(1) have eq: "ranges m = butlast (ranges m) @ [sentinel dummy]"
    by (metis append_butlast_last_id sentinel_last_def)
  have "searchRange m a = searchRange_loop a (butlast (ranges m) @ [sentinel dummy])"
    unfolding searchRange_def using eq by simp
  also have "\<dots> =
      Some (case find (\<lambda>r. isInside a (base r) (size_r r)) (butlast (ranges m)) of
              Some r \<Rightarrow> r | None \<Rightarrow> sentinel dummy)"
    using assms(2)
    by (subst searchRange_loop_snoc)
       (simp add: searchRange_loop_find isInside_sentinel split: option.splits)
  finally show ?thesis .
qed

text \<open>
  The test \<^verbatim>\<open>isInside\<close> subtracts with wrap-around and compares once. For a range
  that fits it is containment: the address is at or above the base and below the
  base plus the size.
\<close>

lemma isInside_numeric:
  assumes "unat b + unat s \<le> 2 ^ 32"
  shows "isInside a b s = (unat b \<le> unat a \<and> unat a < unat b + unat s)"
proof (cases "b \<le> a")
  case True
  then have "unat (a - b) = unat a - unat b" by (simp add: unat_sub)
  moreover from True have "unat b \<le> unat a" by (simp add: word_le_nat_alt)
  ultimately show ?thesis by (auto simp: isInside_def word_less_nat_alt)
next
  case False
  then have lt: "unat a < unat b" by (simp add: word_le_nat_alt)
  have "unat (a - b) = unat a + 2 ^ 32 - unat b"
    using unat_sub_if_size [of a b] lt by (simp add: word_size)
  with assms lt have "\<not> unat (a - b) < unat s" by simp
  with lt show ?thesis by (simp add: isInside_def word_less_nat_alt)
qed

lemma range_fits_sentinel: "range_fits (sentinel dummy)"
  by (simp add: range_fits_def sentinel_def)

lemma isInside_range_contains:
  "range_fits r \<Longrightarrow> isInside a (base r) (size_r r) = range_contains r a"
  by (simp add: range_fits_def range_contains_def isInside_numeric)

lemma find_range_contains:
  assumes "list_all range_fits rs"
  shows "find (\<lambda>r. isInside a (base r) (size_r r)) rs = find (\<lambda>r. range_contains r a) rs"
  using assms by (induction rs) (simp_all add: isInside_range_contains)

text \<open>
  C2. On a dispatcher built by the constructor, accepted adds and removes of
  registered ranges, all of whose ranges fit, resolving an address below 0x10000
  never fails. It returns the first entry before the sentinel that contains the
  address, scanning from the front, and the sentinel range of the dummy device when
  there is none; the range it returns is an entry of the table and contains the
  address. An accepted add of a range that fits puts the range at the front, so the
  range added last is the one found for the addresses it contains, and the other
  addresses resolve as before.
\<close>

theorem searchRange_first_match_or_sentinel:
  assumes "reachable dummy m" and "a < 0x10000" and "list_all range_fits (ranges m)"
  shows "searchRange m a =
           Some (case find (\<lambda>r. range_contains r a) (butlast (ranges m)) of
                   Some r \<Rightarrow> r | None \<Rightarrow> sentinel dummy)
         \<and> (\<exists>r. searchRange m a = Some r \<and> r \<in> set (ranges m) \<and> range_contains r a)
         \<and> (\<forall>dev b s m'.
               range_fits \<lparr>base = b, size_r = s, device = dev\<rparr> \<longrightarrow>
               add dev b s m = (None, m') \<longrightarrow>
               ranges m' = \<lparr>base = b, size_r = s, device = dev\<rparr> # ranges m
               \<and> searchRange m' a =
                   (if unat b \<le> unat a \<and> unat a < unat b + unat s
                    then Some \<lparr>base = b, size_r = s, device = dev\<rparr>
                    else searchRange m a))"
proof (intro conjI allI impI)
  let ?P = "\<lambda>r. range_contains r a"
  from reachable_sentinel_last [OF assms(1)]
  have sl: "ranges m \<noteq> []" "last (ranges m) = sentinel dummy"
    by (simp_all add: sentinel_last_def)
  from assms(3) have fits: "list_all range_fits (butlast (ranges m))"
    by (auto simp: list_all_iff dest: in_set_butlastD)
  show res: "searchRange m a =
      Some (case find ?P (butlast (ranges m)) of Some r \<Rightarrow> r | None \<Rightarrow> sentinel dummy)"
    using searchRange_sentinel_last [OF reachable_sentinel_last [OF assms(1)] assms(2)]
    by (simp add: find_range_contains [OF fits])
  show "\<exists>r. searchRange m a = Some r \<and> r \<in> set (ranges m) \<and> range_contains r a"
  proof (cases "find ?P (butlast (ranges m))")
    case None
    have "range_contains (sentinel dummy) a"
      using assms(2) by (simp add: range_contains_def sentinel_def word_less_nat_alt)
    moreover have "sentinel dummy \<in> set (ranges m)"
      using sl last_in_set [of "ranges m"] by simp
    ultimately show ?thesis using res None by simp
  next
    case (Some r)
    then have "range_contains r a" "r \<in> set (butlast (ranges m))"
      by (auto simp: find_Some_iff)
    then show ?thesis using res Some by (auto dest: in_set_butlastD)
  qed
  fix dev b s m'
  assume f: "range_fits \<lparr>base = b, size_r = s, device = dev\<rparr>"
    and ad: "add dev b s m = (None, m')"
  from ad show "ranges m' = \<lparr>base = b, size_r = s, device = dev\<rparr> # ranges m"
    by (auto simp: add_def split: if_splits)
  from f have "isInside a b s = (unat b \<le> unat a \<and> unat a < unat b + unat s)"
    by (simp add: range_fits_def isInside_numeric)
  with ad show "searchRange m' a =
      (if unat b \<le> unat a \<and> unat a < unat b + unat s
       then Some \<lparr>base = b, size_r = s, device = dev\<rparr> else searchRange m a)"
    by (auto simp: add_def searchRange_def split: if_splits)
qed

theorem searchRange_first_match_or_sentinel_witness:
  "reachable (0::nat) (snd (add 1 0x4000 0x2000 (MSXMultiMemDevice_new 0)))
   \<and> (0x4800::unsigned) < 0x10000
   \<and> list_all range_fits (ranges (snd (add (1::nat) 0x4000 0x2000 (MSXMultiMemDevice_new 0))))
   \<and> searchRange (snd (add (1::nat) 0x4000 0x2000 (MSXMultiMemDevice_new 0))) 0x4800
       = Some \<lparr>base = 0x4000, size_r = 0x2000, device = 1\<rparr>
   \<and> range_contains \<lparr>base = 0x4000, size_r = 0x2000, device = 1::nat\<rparr> 0x4800"
proof -
  have e: "add (1::nat) 0x4000 0x2000 (MSXMultiMemDevice_new (0::nat))
      = (None, snd (add 1 0x4000 0x2000 (MSXMultiMemDevice_new 0)))"
    by (simp add: add_def canAdd_def MSXMultiMemDevice_new_def)
  have r: "reachable (0::nat) (snd (add 1 0x4000 0x2000 (MSXMultiMemDevice_new 0)))"
    by (rule reachable_add [OF reachable_new e])
  have a: "(0x4800::unsigned) < 0x10000" by simp
  have f: "list_all range_fits
      (ranges (snd (add (1::nat) 0x4000 0x2000 (MSXMultiMemDevice_new 0))))"
    by (simp add: add_def canAdd_def MSXMultiMemDevice_new_def range_fits_def sentinel_def)
  from searchRange_first_match_or_sentinel [OF r a f] r a f show ?thesis
    by (simp add: add_def canAdd_def MSXMultiMemDevice_new_def range_contains_def)
qed

text \<open>
  The ranges have to fit: a range registered over 0xFFFFF000 with size 0x2000 passes
  the test of \<^verbatim>\<open>isInside\<close> at address 0 by wrap-around, and address 0 resolves to it.
\<close>

lemma searchRange_wrapping_range_run:
  "add X 0xFFFFF000 0x2000 (MSXMultiMemDevice_new dummy)
     = (None, \<lparr>ranges = [\<lparr>base = 0xFFFFF000, size_r = 0x2000, device = X\<rparr>, sentinel dummy]\<rparr>)
   \<and> searchRange (snd (add X 0xFFFFF000 0x2000 (MSXMultiMemDevice_new dummy))) 0
     = Some \<lparr>base = 0xFFFFF000, size_r = 0x2000, device = X\<rparr>
   \<and> \<not> range_fits \<lparr>base = 0xFFFFF000, size_r = 0x2000, device = X\<rparr>
   \<and> \<not> range_contains \<lparr>base = 0xFFFFF000, size_r = 0x2000, device = X\<rparr> 0"
  by (simp add: add_def canAdd_def MSXMultiMemDevice_new_def searchRange_def isInside_def
      range_fits_def range_contains_def)

subsection \<open>Adding\<close>

lemma canAdd_loop_iff:
  "canAdd_loop b s rs \<longleftrightarrow> (\<forall>r \<in> set rs. \<not> overlap b s (base r) (size_r r))"
  by (induction rs) auto

lemma canAdd_iff:
  "canAdd b s m \<longleftrightarrow> (\<forall>r \<in> set (butlast (ranges m)). \<not> overlap b s (base r) (size_r r))"
  by (simp add: canAdd_def canAdd_loop_iff butlast_conv_take)

text \<open>
  C1. The claim is that \<^verbatim>\<open>canAdd\<close> rejects a requested range exactly when it
  intersects a registered range other than the sentinel. The code tests only whether
  the first or the last address of the requested range lies inside a registered
  range, so a requested range that encloses a registered one is accepted: with X
  registered over [0x5000, 0x5800), the request [0x4000, 0x6000) intersects it, and
  \<^verbatim>\<open>canAdd\<close> returns true and \<^verbatim>\<open>add\<close> registers it. The same two ranges in the other
  order are refused: with X registered over [0x4000, 0x6000), the request
  [0x5000, 0x5800) is rejected.
\<close>

theorem canAdd_accepts_enclosing_range:
  "ranges_intersect 0x4000 0x2000 0x5000 0x800
   \<and> canAdd 0x4000 0x2000 (snd (add X 0x5000 0x800 (MSXMultiMemDevice_new dummy)))
   \<and> add Y 0x4000 0x2000 (snd (add X 0x5000 0x800 (MSXMultiMemDevice_new dummy)))
       = (None, \<lparr>ranges = [\<lparr>base = 0x4000, size_r = 0x2000, device = Y\<rparr>,
                            \<lparr>base = 0x5000, size_r = 0x800, device = X\<rparr>,
                            sentinel dummy]\<rparr>)
   \<and> \<not> canAdd 0x5000 0x800 (snd (add X 0x4000 0x2000 (MSXMultiMemDevice_new dummy)))"
  by (simp add: ranges_intersect_def add_def canAdd_def MSXMultiMemDevice_new_def
      overlap_def isInside_def)

text \<open>
  C5. An add is rejected with the overlap violation only when \<^verbatim>\<open>overlap\<close> holds of the
  requested range and some registered range before the sentinel, and the rejected
  add leaves the dispatcher exactly as it was: no entry of the table is inserted,
  removed or moved.
\<close>

theorem rejected_add_leaves_table:
  "fst (add dev b s m) = Some OverlapViolation \<Longrightarrow>
     (\<exists>r \<in> set (butlast (ranges m)). overlap b s (base r) (size_r r))
     \<and> snd (add dev b s m) = m \<and> ranges (snd (add dev b s m)) = ranges m"
  by (simp add: add_def canAdd_iff split: if_splits)

theorem rejected_add_leaves_table_witness:
  "fst (add (2::nat) 0x5000 0x2000 (snd (add (1::nat) 0x4000 0x2000 (MSXMultiMemDevice_new 0))))
      = Some OverlapViolation
   \<and> snd (add (2::nat) 0x5000 0x2000 (snd (add (1::nat) 0x4000 0x2000 (MSXMultiMemDevice_new 0))))
      = \<lparr>ranges = [\<lparr>base = 0x4000, size_r = 0x2000, device = 1\<rparr>, sentinel 0]\<rparr>"
proof -
  have h: "fst (add (2::nat) 0x5000 0x2000
                 (snd (add (1::nat) 0x4000 0x2000 (MSXMultiMemDevice_new 0))))
      = Some OverlapViolation"
    by (simp add: add_def canAdd_def MSXMultiMemDevice_new_def overlap_def isInside_def)
  from rejected_add_leaves_table [OF h] h show ?thesis
    by (simp add: add_def canAdd_def MSXMultiMemDevice_new_def overlap_def isInside_def)
qed

subsection \<open>Removing\<close>

lemma Range_eq_iff: "Range_eq (r :: 'd Range) v \<longleftrightarrow> r = v"
  by (cases r; cases v) (auto simp: Range_eq_def)

lemma find_pos_None: "find_pos v rs = None \<longleftrightarrow> v \<notin> set rs"
  by (induction rs) (auto simp: Range_eq_iff)

lemma find_pos_Some:
  "find_pos v rs = Some i \<Longrightarrow> i < length rs \<and> rs ! i = v \<and> v \<notin> set (take i rs)"
proof (induction rs arbitrary: i)
  case Nil
  then show ?case by simp
next
  case (Cons r rs)
  show ?case
  proof (cases "Range_eq r v")
    case True
    with Cons.prems show ?thesis by (simp add: Range_eq_iff)
  next
    case False
    with Cons.prems obtain j where j: "find_pos v rs = Some j" "i = Suc j"
      by auto
    from Cons.IH [OF j(1)] False j(2) show ?thesis
      by (simp add: Range_eq_iff)
  qed
qed

lemma erase_split:
  "i < length xs \<Longrightarrow>
     xs = take i xs @ xs ! i # drop (Suc i) xs \<and> erase i xs = take i xs @ drop (Suc i) xs"
  by (simp add: erase_def id_take_nth_drop)

text \<open>
  C6. \<^verbatim>\<open>remove(device, base, size)\<close> fails with the missing-entry failure, the table
  untouched, when no entry has exactly these three values. Otherwise it takes out
  one entry, the first one with these values, and keeps all the others in their
  order; when that entry stands before the last position, the last entry (the
  sentinel) stays where it is.
\<close>

theorem remove_range_exact_entry:
  "(\<lparr>base = b, size_r = s, device = dev\<rparr> \<notin> set (ranges m) \<longrightarrow>
      remove_range dev b s m = (Some NotFound, m))
   \<and> (\<lparr>base = b, size_r = s, device = dev\<rparr> \<in> set (ranges m) \<longrightarrow>
      (\<exists>pre post.
          ranges m = pre @ \<lparr>base = b, size_r = s, device = dev\<rparr> # post
        \<and> \<lparr>base = b, size_r = s, device = dev\<rparr> \<notin> set pre
        \<and> remove_range dev b s m = (None, m\<lparr>ranges := pre @ post\<rparr>)))
   \<and> (\<lparr>base = b, size_r = s, device = dev\<rparr> \<in> set (butlast (ranges m)) \<longrightarrow>
        last (ranges (snd (remove_range dev b s m))) = last (ranges m))"
proof (intro conjI impI)
  let ?R = "\<lparr>base = b, size_r = s, device = dev\<rparr>"
  show "remove_range dev b s m = (Some NotFound, m)" if "?R \<notin> set (ranges m)"
    using that by (simp add: remove_range_def find_pos_None [THEN iffD2])
  have found: "\<exists>i. find_pos ?R (ranges m) = Some i" if "?R \<in> set (ranges m)"
    using that find_pos_None [of ?R "ranges m"] by (cases "find_pos ?R (ranges m)") auto
  show "\<exists>pre post. ranges m = pre @ ?R # post \<and> ?R \<notin> set pre
          \<and> remove_range dev b s m = (None, m\<lparr>ranges := pre @ post\<rparr>)"
    if "?R \<in> set (ranges m)"
  proof -
    from found [OF that] obtain i where i: "find_pos ?R (ranges m) = Some i" ..
    from find_pos_Some [OF i] have *: "i < length (ranges m)" "ranges m ! i = ?R"
      "?R \<notin> set (take i (ranges m))" by auto
    from erase_split [OF *(1)] *(2)
    have "ranges m = take i (ranges m) @ ?R # drop (Suc i) (ranges m)" by simp
    moreover have "remove_range dev b s m
        = (None, m\<lparr>ranges := take i (ranges m) @ drop (Suc i) (ranges m)\<rparr>)"
      by (simp add: remove_range_def i erase_def)
    ultimately show ?thesis using *(3) by blast
  qed
  show "last (ranges (snd (remove_range dev b s m))) = last (ranges m)"
    if "?R \<in> set (butlast (ranges m))"
  proof -
    from that have mem: "?R \<in> set (ranges m)" by (rule in_set_butlastD)
    from found [OF mem] obtain i where i: "find_pos ?R (ranges m) = Some i" ..
    from find_pos_Some [OF i] have *: "i < length (ranges m)" "ranges m ! i = ?R"
      "?R \<notin> set (take i (ranges m))" by auto
    have "i < length (ranges m) - 1"
    proof (rule ccontr)
      assume "\<not> i < length (ranges m) - 1"
      with *(1) have "i = length (ranges m) - 1" by simp
      then have "take i (ranges m) = butlast (ranges m)" by (simp add: butlast_conv_take)
      with *(3) that show False by simp
    qed
    from erase_last [OF this] show ?thesis
      by (simp add: remove_range_def i)
  qed
qed

theorem remove_range_exact_entry_witness:
  "\<lparr>base = 0x4000, size_r = 0x2000, device = 2::nat\<rparr>
      \<notin> set (ranges (snd (add (1::nat) 0x4000 0x2000 (MSXMultiMemDevice_new 0))))
   \<and> remove_range 2 0x4000 0x2000 (snd (add (1::nat) 0x4000 0x2000 (MSXMultiMemDevice_new 0)))
      = (Some NotFound, snd (add (1::nat) 0x4000 0x2000 (MSXMultiMemDevice_new 0)))
   \<and> \<lparr>base = 0x4000, size_r = 0x2000, device = 1::nat\<rparr>
      \<in> set (butlast (ranges (snd (add (1::nat) 0x4000 0x2000 (MSXMultiMemDevice_new 0)))))
   \<and> remove_range 1 0x4000 0x2000 (snd (add (1::nat) 0x4000 0x2000 (MSXMultiMemDevice_new 0)))
      = (None, MSXMultiMemDevice_new 0)"
  using remove_range_exact_entry
          [of "0x4000" "0x2000" "2::nat"
              "snd (add (1::nat) 0x4000 0x2000 (MSXMultiMemDevice_new 0))"]
        remove_range_exact_entry
          [of "0x4000" "0x2000" "1::nat"
              "snd (add (1::nat) 0x4000 0x2000 (MSXMultiMemDevice_new 0))"]
  by (simp add: add_def canAdd_def MSXMultiMemDevice_new_def remove_range_def Range_eq_def
      erase_def sentinel_def)

subsection \<open>Routing\<close>

lemma ucast16_lt: "(ucast (a :: word16) :: unsigned) < 0x10000"
proof -
  have "uint (ucast a :: unsigned) = uint a"
    by (rule uint_up_ucast) (simp add: is_up)
  moreover have "uint a < 2 ^ 16" using uint_lt2p [of a] by simp
  ultimately show ?thesis by (simp add: word_less_def)
qed

text \<open>
  C4. On a reachable dispatcher, for every 16-bit address and every time, the
  address resolves to a range, and \<^verbatim>\<open>readMem\<close>, \<^verbatim>\<open>peekMem\<close> and \<^verbatim>\<open>writeMem\<close> are the
  accessor of the same name of that range's device, called with the same address,
  value and time.
\<close>

theorem dispatcher_routes_to_owner:
  assumes "reachable dummy m"
  shows "\<exists>r. searchRange m (ucast address) = Some r
           \<and> searchDevice m (ucast address) = Some (device r)
           \<and> readMem vt m address time w
               = Some (MSXDevice_readMem (vt (device r)) address time w)
           \<and> peekMem vt m address time w
               = Some (MSXDevice_peekMem (vt (device r)) address time w)
           \<and> writeMem vt m address val time w
               = Some (MSXDevice_writeMem (vt (device r)) address val time w)"
  using searchRange_sentinel_last
          [OF reachable_sentinel_last [OF assms] ucast16_lt [of address]]
  by (simp add: readMem_def peekMem_def writeMem_def searchDevice_def)

theorem dispatcher_routes_to_owner_witness:
  "reachable (0::nat) (snd (add 1 0x4000 0x2000 (MSXMultiMemDevice_new 0)))
   \<and> readMem (\<lambda>d::nat. \<lparr>MSXDevice_readMem = (\<lambda>a t (w::nat). (of_nat d, w + unat t)),
                        MSXDevice_peekMem = (\<lambda>a t w. of_nat d),
                        MSXDevice_writeMem = (\<lambda>a v t w. w + d)\<rparr>)
        (snd (add 1 0x4000 0x2000 (MSXMultiMemDevice_new 0))) 0x4800 5 3 = Some (1, 8)
   \<and> peekMem (\<lambda>d::nat. \<lparr>MSXDevice_readMem = (\<lambda>a t (w::nat). (of_nat d, w + unat t)),
                        MSXDevice_peekMem = (\<lambda>a t w. of_nat d),
                        MSXDevice_writeMem = (\<lambda>a v t w. w + d)\<rparr>)
        (snd (add 1 0x4000 0x2000 (MSXMultiMemDevice_new 0))) 0x4800 5 3 = Some 1
   \<and> writeMem (\<lambda>d::nat. \<lparr>MSXDevice_readMem = (\<lambda>a t (w::nat). (of_nat d, w + unat t)),
                        MSXDevice_peekMem = (\<lambda>a t w. of_nat d),
                        MSXDevice_writeMem = (\<lambda>a v t w. w + d)\<rparr>)
        (snd (add 1 0x4000 0x2000 (MSXMultiMemDevice_new 0))) 0x4800 0x2A 5 3 = Some 4"
proof -
  have e: "add (1::nat) 0x4000 0x2000 (MSXMultiMemDevice_new (0::nat))
      = (None, snd (add 1 0x4000 0x2000 (MSXMultiMemDevice_new 0)))"
    by (simp add: add_def canAdd_def MSXMultiMemDevice_new_def)
  have r: "reachable (0::nat) (snd (add 1 0x4000 0x2000 (MSXMultiMemDevice_new 0)))"
    by (rule reachable_add [OF reachable_new e])
  from dispatcher_routes_to_owner [OF r, of "0x4800"
      "\<lambda>d::nat. \<lparr>MSXDevice_readMem = (\<lambda>a t (w::nat). (of_nat d, w + unat t)),
                 MSXDevice_peekMem = (\<lambda>a t w. of_nat d),
                 MSXDevice_writeMem = (\<lambda>a v t w. w + d)\<rparr>" 5 3 "0x2A"] r
  show ?thesis
    by (auto simp: add_def canAdd_def MSXMultiMemDevice_new_def searchRange_def isInside_def)
qed

section \<open>Properties of the flash\<close>

subsection \<open>Sectors are always found\<close>

lemma unat_sum_list_le: "unat (sum_list (ws :: unsigned list)) \<le> sum_list (map unat ws)"
proof (induction ws)
  case Nil
  then show ?case by simp
next
  case (Cons w ws)
  have "unat (w + sum_list ws) \<le> unat w + unat (sum_list ws)"
    by (simp add: unat_word_ariths)
  with Cons show ?case by simp
qed

lemma getSectorInfo_loop_total:
  "unat a < sum_list (map (\<lambda>i. unat (size_s i)) xs) \<Longrightarrow>
   \<exists>sec sz off. getSectorInfo_loop a k xs = Some (sec, sz, off)
      \<and> k \<le> sec \<and> sec - k < length xs \<and> sz = size_s (xs ! (sec - k)) \<and> off < sz"
proof (induction xs arbitrary: a k)
  case Nil
  then show ?case by simp
next
  case (Cons x xs)
  show ?case
  proof (cases "size_s x \<le> a")
    case True
    then have "unat (a - size_s x) = unat a - unat (size_s x)"
      by (simp add: unat_sub)
    moreover from True have "unat (size_s x) \<le> unat a" by (simp add: word_le_nat_alt)
    ultimately have "unat (a - size_s x) < sum_list (map (\<lambda>i. unat (size_s i)) xs)"
      using Cons.prems by simp
    from Cons.IH [OF this, of "k + 1"] obtain sec sz off where
      *: "getSectorInfo_loop (a - size_s x) (k + 1) xs = Some (sec, sz, off)"
         "k + 1 \<le> sec" "sec - (k + 1) < length xs" "sz = size_s (xs ! (sec - (k + 1)))" "off < sz"
      by blast
    from *(2) have "sec - k = Suc (sec - (k + 1))" by simp
    then have "(x # xs) ! (sec - k) = xs ! (sec - (k + 1))" by simp
    with * True show ?thesis by auto
  next
    case False
    then show ?thesis by (auto simp: not_le)
  qed
qed

lemma getSectorInfo_total:
  assumes "flash_wf E s"
  shows "\<exists>sec sz off. getSectorInfo s a = Some (sec, sz, off)
      \<and> sec < length (sectorInfo s) \<and> sz = size_s (sectorInfo s ! sec) \<and> off < sz"
proof -
  from assms have sz: "sum_list (map size_s (sectorInfo s)) = size_f s" "size_f s \<noteq> 0"
    unfolding flash_wf_def by blast+
  have "a AND (size_f s - 1) \<le> size_f s - 1" by (rule word_and_le1)
  then have "unat (a AND (size_f s - 1)) \<le> unat (size_f s - 1)"
    by (simp add: word_le_nat_alt)
  moreover from sz(2) have "unat (size_f s - 1) < unat (size_f s)"
    by (simp add: unat_minus_one unat_gt_0 [THEN iffD2])
  moreover have "unat (size_f s) \<le> sum_list (map (\<lambda>i. unat (size_s i)) (sectorInfo s))"
    using unat_sum_list_le [of "map size_s (sectorInfo s)"] sz(1) by (simp add: comp_def)
  ultimately have "unat (a AND (size_f s - 1)) < sum_list (map (\<lambda>i. unat (size_s i)) (sectorInfo s))"
    by linarith
  from getSectorInfo_loop_total [OF this, of 0] show ?thesis
    by (auto simp: getSectorInfo_def)
qed

subsection \<open>The checks keep the command index in range\<close>

lemma flash_wf_ram: "flash_wf E s \<Longrightarrow> flash_wf E (s\<lparr>ram := Some r\<rparr>)"
  by (simp add: flash_wf_def)

lemma flash_wf_setState: "flash_wf E (setState n s) = flash_wf E s"
  by (simp add: setState_def flash_wf_def)

lemma flash_wf_reset: "flash_wf E (AmdFlash_reset s) = flash_wf E s"
  by (simp add: AmdFlash_reset_def setState_def flash_wf_def)

lemma cmdIdx_setState: "cmdIdx (setState n s) = cmdIdx s"
  by (simp add: setState_def)

lemma cmdIdx_reset: "cmdIdx (AmdFlash_reset s) = 0"
  by (simp add: AmdFlash_reset_def setState_def)

lemma writable_has_ram:
  assumes "flash_wf E s" and "getSectorInfo s a = Some (sec, sz, off)"
    and "isSectorWritable s sec"
  shows "\<exists>r. ram s = Some r"
proof -
  from getSectorInfo_total [OF assms(1), of a] assms(2)
  have *: "sec < length (sectorInfo s)" "sz = size_s (sectorInfo s ! sec)" "off < sz"
    by auto
  from *(2,3) have "size_s (sectorInfo s ! sec) \<noteq> 0"
    by (auto simp: word_less_nat_alt)
  moreover from assms(3) have "writeAddress s ! sec \<noteq> - 1"
    by (simp add: isSectorWritable_def split: if_splits)
  ultimately have "ram s \<noteq> None"
    using assms(1) *(1) unfolding flash_wf_def by blast
  then show ?thesis by auto
qed

lemma keeps_Manufacturer:
  "flash_wf E s \<Longrightarrow> keeps E s (checkCommandManufacturer s)"
  by (auto simp: keeps_def checkCommandManufacturer_def partialMatch_def Let_def
      flash_wf_setState cmdIdx_setState split: bool.splits)

lemma keeps_EraseSector:
  assumes "flash_wf E s"
  shows "keeps E s (checkCommandEraseSector E s)"
proof -
  obtain sec sz off where g: "getSectorInfo s (addr (cmd s ! 5)) = Some (sec, sz, off)"
    using getSectorInfo_total [OF assms] by blast
  show ?thesis
  proof (cases "isSectorWritable s sec")
    case True
    from writable_has_ram [OF assms g True] obtain r where "ram s = Some r" ..
    with assms g True show ?thesis
      by (auto simp: keeps_def checkCommandEraseSector_def partialMatch_def flash_wf_ram
          split: bool.splits)
  next
    case False
    with assms g show ?thesis
      by (auto simp: keeps_def checkCommandEraseSector_def partialMatch_def split: bool.splits)
  qed
qed

lemma keeps_EraseChip:
  "flash_wf E s \<Longrightarrow> keeps E s (checkCommandEraseChip E s)"
  by (cases "ram s")
     (auto simp: keeps_def checkCommandEraseChip_def partialMatch_def flash_wf_ram
        split: bool.splits)

lemma program_loop_total:
  "flash_wf E s \<Longrightarrow>
     \<exists>s'. program_loop E js s = Some s' \<and> flash_wf E s' \<and> cmdIdx s' = cmdIdx s"
proof (induction js arbitrary: s)
  case Nil
  then show ?case by simp
next
  case (Cons j js)
  obtain sec sz off where g: "getSectorInfo s (addr (cmd s ! j)) = Some (sec, sz, off)"
    using getSectorInfo_total [OF Cons.prems] by blast
  show ?case
  proof (cases "isSectorWritable s sec")
    case True
    from writable_has_ram [OF Cons.prems g True] obtain r where r: "ram s = Some r" ..
    let ?a = "unat (word_of_int (writeAddress s ! sec) + off :: unsigned)"
    let ?s = "s\<lparr>ram := Some (SRAM_write E ?a (SRAM_get E r ?a AND value_c (cmd s ! j)) r)\<rparr>"
    have "flash_wf E ?s" by (rule flash_wf_ram [OF Cons.prems])
    from Cons.IH [OF this] g True r show ?thesis by (simp add: Let_def)
  next
    case False
    with Cons.IH [OF Cons.prems] g show ?thesis by simp
  qed
qed

lemma keeps_ProgramHelper:
  assumes "flash_wf E s" and "length cmdSeq \<le> 5" and "length cmdSeq + numBytes \<le> 6"
  shows "keeps E s (checkCommandProgramHelper E numBytes cmdSeq s)"
proof -
  obtain s' where p: "program_loop E [length cmdSeq ..< length cmdSeq + numBytes] s = Some s'"
      "flash_wf E s'" "cmdIdx s' = cmdIdx s"
    using program_loop_total [OF assms(1)] by blast
  with assms show ?thesis
    by (auto simp: keeps_def checkCommandProgramHelper_def partialMatch_def Let_def
        split: bool.splits)
qed

lemma keeps_Program: "flash_wf E s \<Longrightarrow> keeps E s (checkCommandProgram E s)"
  unfolding checkCommandProgram_def by (rule keeps_ProgramHelper) simp_all

lemma keeps_DoubleByteProgram:
  "flash_wf E s \<Longrightarrow> keeps E s (checkCommandDoubleByteProgram E s)"
  unfolding checkCommandDoubleByteProgram_def by (rule keeps_ProgramHelper) simp_all

lemma keeps_QuadrupleByteProgram:
  "flash_wf E s \<Longrightarrow> keeps E s (checkCommandQuadrupleByteProgram E s)"
  unfolding checkCommandQuadrupleByteProgram_def by (rule keeps_ProgramHelper) simp_all

lemma settles_Reset: "flash_wf E s \<Longrightarrow> settles E s (checkCommandReset s)"
  by (auto simp: settles_def checkCommandReset_def flash_wf_reset)

lemma settles_orelse:
  assumes "keeps E s (f s)"
    and "\<And>s'. flash_wf E s' \<Longrightarrow> cmdIdx s' = cmdIdx s \<Longrightarrow> settles E s' (g s')"
  shows "settles E s (orelse f g s)"
proof -
  from assms(1) obtain b s' where f: "f s = Some (b, s')" "flash_wf E s'"
      "cmdIdx s' = cmdIdx s" "b \<longrightarrow> cmdIdx s \<le> 5"
    unfolding keeps_def by blast
  show ?thesis
  proof (cases b)
    case True
    with f show ?thesis by (auto simp: settles_def orelse_def)
  next
    case False
    from assms(2) [OF f(2,3)] f(3) have "settles E s (g s')"
      by (simp add: settles_def)
    with f(1) False show ?thesis by (simp add: orelse_def)
  qed
qed

lemma settles_checks:
  assumes "flash_wf E s"
  shows "settles E s
     (orelse checkCommandManufacturer
       (orelse (checkCommandEraseSector E)
       (orelse (checkCommandProgram E)
       (orelse (checkCommandDoubleByteProgram E)
       (orelse (checkCommandQuadrupleByteProgram E)
       (orelse (checkCommandEraseChip E)
               checkCommandReset))))) s)"
  by (intro settles_orelse keeps_Manufacturer keeps_EraseSector keeps_Program
      keeps_DoubleByteProgram keeps_QuadrupleByteProgram keeps_EraseChip settles_Reset assms)

lemma AmdFlash_write_step:
  assumes "flash_wf E s" and "cmdIdx s < MAX_CMD_SIZE E"
  shows "\<exists>s'. AmdFlash_write E s a v = Some s' \<and> flash_wf E s'
           \<and> (cmdIdx s' = cmdIdx s + 1 \<or> cmdIdx s' = 0) \<and> cmdIdx s' \<le> 5"
proof -
  let ?s2 = "s\<lparr>cmd := (cmd s)[cmdIdx s := \<lparr>addr = a, value_c = v\<rparr>], cmdIdx := cmdIdx s + 1\<rparr>"
  from assms(1) have "flash_wf E ?s2" by (simp add: flash_wf_def)
  from settles_checks [OF this] obtain b s3 where
    c: "orelse checkCommandManufacturer
       (orelse (checkCommandEraseSector E)
       (orelse (checkCommandProgram E)
       (orelse (checkCommandDoubleByteProgram E)
       (orelse (checkCommandQuadrupleByteProgram E)
       (orelse (checkCommandEraseChip E)
               checkCommandReset))))) ?s2 = Some (b, s3)"
      "flash_wf E s3" "b \<longrightarrow> cmdIdx s3 = cmdIdx ?s2 \<and> cmdIdx ?s2 \<le> 5"
    unfolding settles_def by blast
  show ?thesis
  proof (cases b)
    case True
    with c assms(2) show ?thesis by (simp add: AmdFlash_write_def Let_def)
  next
    case False
    with c assms(2) show ?thesis
      by (simp add: AmdFlash_write_def Let_def flash_wf_reset cmdIdx_reset)
  qed
qed

lemma writes_total:
  assumes "6 \<le> MAX_CMD_SIZE E"
  shows "flash_wf E s \<Longrightarrow> cmdIdx s \<le> 5 \<Longrightarrow>
     \<exists>s'. writes E ws s = Some s' \<and> flash_wf E s' \<and> cmdIdx s' \<le> 5"
proof (induction ws arbitrary: s)
  case Nil
  then show ?case by simp
next
  case (Cons x ws)
  from Cons.prems assms have "cmdIdx s < MAX_CMD_SIZE E" by simp
  from AmdFlash_write_step [OF Cons.prems(1) this, of "fst x" "snd x"] obtain s1 where
    s1: "AmdFlash_write E s (fst x) (snd x) = Some s1" "flash_wf E s1" "cmdIdx s1 \<le> 5"
    by blast
  from Cons.IH [OF s1(2,3)] s1(1) show ?case by simp
qed

text \<open>
  C8. The array \<^verbatim>\<open>cmd\<close> has at least six entries (the code reads \<^verbatim>\<open>cmd[5]\<close>). From
  the reset state of a well-formed flash (\<^verbatim>\<open>cmdIdx\<close> 0, mode \<^verbatim>\<open>ST_IDLE\<close>), every
  finite sequence of writes returns, none fails its assertion
  \<^verbatim>\<open>cmdIdx < MAX_CMD_SIZE\<close>, and \<^verbatim>\<open>cmdIdx\<close> is at most 5 afterwards. One more write, of
  any address and value, returns as well, with \<^verbatim>\<open>cmdIdx\<close> one larger or reset to 0,
  and at most 5.
\<close>

theorem cmdIdx_bounded_after_writes:
  assumes "flash_wf E s0" and "6 \<le> MAX_CMD_SIZE E"
  shows "cmdIdx (AmdFlash_reset s0) = 0 \<and> state (AmdFlash_reset s0) = ST_IDLE
     \<and> (\<exists>s. writes E ws (AmdFlash_reset s0) = Some s
            \<and> cmdIdx s \<le> 5 \<and> cmdIdx s < MAX_CMD_SIZE E
            \<and> (\<forall>a v. \<exists>s'. AmdFlash_write E s a v = Some s'
                   \<and> (cmdIdx s' = cmdIdx s + 1 \<or> cmdIdx s' = 0) \<and> cmdIdx s' \<le> 5))"
proof -
  have r: "flash_wf E (AmdFlash_reset s0)" "cmdIdx (AmdFlash_reset s0) \<le> 5"
    using assms(1) by (simp_all add: flash_wf_reset cmdIdx_reset)
  from writes_total [OF assms(2) r, of ws] obtain s where
    s: "writes E ws (AmdFlash_reset s0) = Some s" "flash_wf E s" "cmdIdx s \<le> 5"
    by blast
  from s(3) assms(2) have lt: "cmdIdx s < MAX_CMD_SIZE E" by simp
  have "\<forall>a v. \<exists>s'. AmdFlash_write E s a v = Some s'
                   \<and> (cmdIdx s' = cmdIdx s + 1 \<or> cmdIdx s' = 0) \<and> cmdIdx s' \<le> 5"
    using AmdFlash_write_step [OF s(2) lt] by blast
  with s lt show ?thesis
    by (simp add: cmdIdx_reset AmdFlash_reset_def setState_def)
qed

lemma example_flash_wf: "flash_wf example_extern example_flash"
  by (simp add: flash_wf_def example_extern_def example_flash_def)

theorem cmdIdx_bounded_after_writes_witness:
  "flash_wf example_extern example_flash \<and> 6 \<le> MAX_CMD_SIZE example_extern
   \<and> (\<exists>s. writes example_extern [(0x555, 0xaa), (0x2aa, 0x55), (0x555, 0x90)]
              (AmdFlash_reset example_flash) = Some s
          \<and> cmdIdx s \<le> 5 \<and> cmdIdx s < MAX_CMD_SIZE example_extern)"
proof -
  have six: "6 \<le> MAX_CMD_SIZE example_extern" by (simp add: example_extern_def)
  from cmdIdx_bounded_after_writes [OF example_flash_wf six, of "[(0x555, 0xaa), (0x2aa, 0x55), (0x555, 0x90)]"]
    example_flash_wf six
  show ?thesis by blast
qed

subsection \<open>Runs of the model\<close>

text \<open>
  The sector erase, the byte program and the manufacturer command on the small flash:
  the erase fills the writable sector with 0xFF, the program stores the old byte AND
  the new one, the manufacturer command switches to \<^verbatim>\<open>ST_IDENT\<close> with one invalidation
  of the cache, and address 1 then reads the low byte of the ID.
\<close>

lemma writes_erase_sector_run: "map_option (\<lambda>s. (cmdIdx s, state s, ram s)) (writes example_extern
     [(0x555, 0xaa), (0x2aa, 0x55), (0x555, 0x80), (0x555, 0xaa), (0x2aa, 0x55), (0x5, 0x30)]
              (AmdFlash_reset example_flash)) = Some (0, ST_IDLE, Some [0xFF, 0xFF, 0xFF, 0xFF])"
  by code_simp

lemma writes_program_run: "map_option (\<lambda>s. (cmdIdx s, state s, ram s)) (writes example_extern
     [(0x555, 0xaa), (0x2aa, 0x55), (0x555, 0xa0), (0x6, 0x0F)]
              (AmdFlash_reset example_flash)) = Some (0, ST_IDLE, Some [0x12, 0x34, 0x06, 0x78])"
  by code_simp

lemma writes_manufacturer_run: "map_option (\<lambda>s. (cmdIdx s, state s, flash_invalidations s)) (writes example_extern
     [(0x555, 0xaa), (0x2aa, 0x55), (0x555, 0x90)]
              (AmdFlash_reset example_flash)) = Some (3, ST_IDENT, [(0, 0x10000)])"
  by code_simp

lemma peek_in_ident_mode_run: "Option.bind (writes example_extern
     [(0x555, 0xaa), (0x2aa, 0x55), (0x555, 0x90)]
              (AmdFlash_reset example_flash)) (\<lambda>s. AmdFlash_peek example_extern s 1) = Some 0xA4"
  by code_simp

subsection \<open>Reading\<close>

lemma deref_total:
  assumes "flash_wf E s" and "sec < length (sectorInfo s)" and "readAddress s ! sec = Some p"
  shows "\<exists>b. deref E s p off = Some b"
proof (cases p)
  case (RamPtr a)
  from assms(1,2) have "sec < length (readAddress s)" by (simp add: flash_wf_def)
  with assms(3) RamPtr have "Some (RamPtr a) \<in> set (readAddress s)"
    by (metis nth_mem)
  with assms(1) have "ram s \<noteq> None" unfolding flash_wf_def by blast
  with RamPtr show ?thesis by (auto simp: deref_def)
next
  case (RomPtr a)
  then show ?thesis by (simp add: deref_def)
qed

lemma AmdFlash_peek_total:
  assumes "flash_wf E s"
  shows "\<exists>b. AmdFlash_peek E s a = Some b"
proof -
  obtain sec sz off where g: "getSectorInfo s a = Some (sec, sz, off)"
      "sec < length (sectorInfo s)"
    using getSectorInfo_total [OF assms] by blast
  show ?thesis
  proof (cases "state s = ST_IDLE")
    case True
    show ?thesis
    proof (cases "readAddress s ! sec")
      case None
      with g True show ?thesis by (simp add: AmdFlash_peek_def)
    next
      case (Some p)
      from deref_total [OF assms g(2) Some] obtain b where "deref E s p off = Some b" ..
      with g True Some show ?thesis by (simp add: AmdFlash_peek_def)
    qed
  next
    case False
    with g show ?thesis by (simp add: AmdFlash_peek_def Let_def)
  qed
qed

text \<open>
  C10. \<^verbatim>\<open>read(address)\<close> returns the byte \<^verbatim>\<open>peek(address)\<close> returns and leaves the
  flash as it was, whatever the address: command buffer, \<^verbatim>\<open>cmdIdx\<close>, mode and RAM
  are the same after the call. On a well-formed flash both return a byte.
\<close>

theorem AmdFlash_read_is_peek:
  "AmdFlash_read E s a = map_option (\<lambda>b. (b, s)) (AmdFlash_peek E s a)
   \<and> (flash_wf E s \<longrightarrow>
        (\<exists>b. AmdFlash_peek E s a = Some b \<and> AmdFlash_read E s a = Some (b, s)))"
proof (intro conjI impI)
  show "AmdFlash_read E s a = map_option (\<lambda>b. (b, s)) (AmdFlash_peek E s a)"
    by (simp add: AmdFlash_read_def split: option.splits)
  show "\<exists>b. AmdFlash_peek E s a = Some b \<and> AmdFlash_read E s a = Some (b, s)"
    if "flash_wf E s"
    using AmdFlash_peek_total [OF that, of a] by (auto simp: AmdFlash_read_def)
qed

theorem AmdFlash_read_is_peek_witness:
  "flash_wf example_extern example_flash
   \<and> AmdFlash_peek example_extern example_flash 5 = Some 0x34
   \<and> AmdFlash_read example_extern example_flash 5 = Some (0x34, example_flash)"
proof -
  have p: "AmdFlash_peek example_extern example_flash 5 = Some 0x34"
    by code_simp
  from AmdFlash_read_is_peek [of example_extern example_flash 5] example_flash_wf p show ?thesis
    by simp
qed

section \<open>Mode changes and the memory cache\<close>

text \<open>
  C3. \<^verbatim>\<open>AmdFlash::setState\<close> with a state other than the current one sets the state
  and invalidates the memory cache once, over 0x0000 with size 0x10000, and changes
  nothing else; with the current state it changes nothing and invalidates nothing.
  \<^verbatim>\<open>MSXPac::checkSramEnable\<close> does the same with the flag \<^verbatim>\<open>sramEnabled\<close> and the
  condition on the two registers.
\<close>

theorem mode_change_invalidates_cache:
  "(state s \<noteq> newState \<longrightarrow>
      setState newState s
        = s\<lparr>state := newState,
             flash_invalidations := flash_invalidations s @ [(0x0000, 0x10000)]\<rparr>)
   \<and> (state s = newState \<longrightarrow> setState newState s = s)
   \<and> (sramEnabled p \<noteq> (r1ffe p = 0x4D \<and> r1fff p = 0x69) \<longrightarrow>
      checkSramEnable p
        = p\<lparr>sramEnabled := (r1ffe p = 0x4D \<and> r1fff p = 0x69),
             pac_invalidations := pac_invalidations p @ [(0x0000, 0x10000)]\<rparr>)
   \<and> (sramEnabled p = (r1ffe p = 0x4D \<and> r1fff p = 0x69) \<longrightarrow> checkSramEnable p = p)"
  by (simp add: setState_def checkSramEnable_def Let_def)


theorem mode_change_invalidates_cache_witness:
  "state example_flash \<noteq> ST_IDENT
   \<and> setState ST_IDENT example_flash
       = example_flash\<lparr>state := ST_IDENT, flash_invalidations := [(0x0000, 0x10000)]\<rparr>
   \<and> state example_flash = ST_IDLE
   \<and> setState ST_IDLE example_flash = example_flash
   \<and> sramEnabled example_pac \<noteq> (r1ffe example_pac = 0x4D \<and> r1fff example_pac = 0x69)
   \<and> checkSramEnable example_pac
       = example_pac\<lparr>sramEnabled := True, pac_invalidations := [(0x0000, 0x10000)]\<rparr>
   \<and> sramEnabled (checkSramEnable example_pac)
       = (r1ffe (checkSramEnable example_pac) = 0x4D \<and> r1fff (checkSramEnable example_pac) = 0x69)
   \<and> checkSramEnable (checkSramEnable example_pac) = checkSramEnable example_pac"
proof -
  have f: "state example_flash = ST_IDLE" "flash_invalidations example_flash = []"
    by (simp_all add: example_flash_def)
  have p: "sramEnabled example_pac = False" "r1ffe example_pac = 0x4D"
    "r1fff example_pac = 0x69" "pac_invalidations example_pac = []"
    by (simp_all add: example_pac_def)
  have q: "sramEnabled (checkSramEnable example_pac) = True"
    "r1ffe (checkSramEnable example_pac) = 0x4D" "r1fff (checkSramEnable example_pac) = 0x69"
    by (simp_all add: checkSramEnable_def example_pac_def)
  from mode_change_invalidates_cache [of example_flash ST_IDENT example_pac]
       mode_change_invalidates_cache [of example_flash ST_IDLE "checkSramEnable example_pac"]
       f p q
  show ?thesis by simp
qed

section \<open>Properties of the PAC\<close>

lemma checkSramEnable_inv:
  "sramEnabled (checkSramEnable p) = (r1ffe (checkSramEnable p) = 0x4D \<and> r1fff (checkSramEnable p) = 0x69)"
  by (auto simp: checkSramEnable_def Let_def)

lemma pac_reachable_inv:
  "pac_reachable E p \<Longrightarrow> sramEnabled p = (r1ffe p = 0x4D \<and> r1fff p = 0x69)"
proof (induction rule: pac_reachable.induct)
  case (pac_new sram0 raw t)
  show ?case by (simp add: MSXPac_new_def MSXPac_reset_def)
next
  case (pac_reset p t)
  show ?case by (simp add: MSXPac_reset_def)
next
  case (pac_writeMem p a v t)
  then show ?case
    by (simp add: MSXPac_writeMem_def Let_def checkSramEnable_inv)
qed

text \<open>
  C9. After the constructor, after every reset and after every \<^verbatim>\<open>writeMem\<close>, the flag
  \<^verbatim>\<open>sramEnabled\<close> holds exactly when \<^verbatim>\<open>r1ffe\<close> is 0x4D and \<^verbatim>\<open>r1fff\<close> is 0x69; so when
  the two registers do not hold these values, \<^verbatim>\<open>readMem\<close> returns 0xFF at every
  address.
\<close>

theorem MSXPac_sramEnabled_invariant:
  assumes "pac_reachable E p"
  shows "sramEnabled p = (r1ffe p = 0x4D \<and> r1fff p = 0x69)
     \<and> (\<not> (r1ffe p = 0x4D \<and> r1fff p = 0x69) \<longrightarrow>
          (\<forall>address time. MSXPac_readMem E p address time = 0xFF))"
  using pac_reachable_inv [OF assms] by (auto simp: MSXPac_readMem_def Let_def)

theorem MSXPac_sramEnabled_invariant_witness:
  "pac_reachable example_extern (MSXPac_new [0x11, 0x22] example_pac 0)
   \<and> \<not> (r1ffe (MSXPac_new [0x11, 0x22] example_pac 0) = 0x4D
        \<and> r1fff (MSXPac_new [0x11, 0x22] example_pac 0) = 0x69)
   \<and> sramEnabled (MSXPac_new [0x11, 0x22] example_pac 0) = False
   \<and> MSXPac_readMem example_extern (MSXPac_new [0x11, 0x22] example_pac 0) 0x0001 7 = 0xFF
   \<and> pac_reachable example_extern
        (MSXPac_writeMem example_extern
          (MSXPac_writeMem example_extern (MSXPac_new [0x11, 0x22] example_pac 0) 0x1FFE 0x4D 1)
          0x1FFF 0x69 2)
   \<and> sramEnabled
        (MSXPac_writeMem example_extern
          (MSXPac_writeMem example_extern (MSXPac_new [0x11, 0x22] example_pac 0) 0x1FFE 0x4D 1)
          0x1FFF 0x69 2) = True"
proof -
  let ?p0 = "MSXPac_new [0x11, 0x22] example_pac 0"
  let ?p2 = "MSXPac_writeMem example_extern
          (MSXPac_writeMem example_extern ?p0 0x1FFE 0x4D 1) 0x1FFF 0x69 2"
  have r0: "pac_reachable example_extern ?p0" by (rule pac_new)
  have r2: "pac_reachable example_extern ?p2" by (intro pac_writeMem pac_new)
  have v0: "r1ffe ?p0 = 0xFF" "r1fff ?p0 = 0xFF"
    by (simp_all add: MSXPac_new_def MSXPac_reset_def)
  have v2: "r1ffe ?p2 = 0x4D" "r1fff ?p2 = 0x69"
    by (simp_all add: MSXPac_new_def MSXPac_reset_def MSXPac_writeMem_def checkSramEnable_def)
  from MSXPac_sramEnabled_invariant [OF r0] MSXPac_sramEnabled_invariant [OF r2] r0 r2 v0 v2
  show ?thesis by simp
qed

end
